theory Spec2Isabelle
  imports Main
begin

section \<open>kapish: a minimal shell (src/kapish.c)\<close>

text \<open>
  C strings are modelled as \<open>string\<close> (a list of bytes): the characters before the
  terminating NUL. Where the C code reads the terminator, the model reads \<open>CHR 0x00\<close>
  at the end of the list (\<open>byte0\<close>). Pointers that may be \<open>NULL\<close> are \<open>option\<close>
  values. \<open>malloc\<close> is taken to succeed.
\<close>

subsection \<open>Command kinds and the reserved names\<close>

datatype cmd_type = EXTERNAL | SETENV | UNSETENV | CD | EXIT

definition SETENV_COMMAND :: string where "SETENV_COMMAND = ''setenv''"
definition UNSETENV_COMMAND :: string where "UNSETENV_COMMAND = ''unsetenv''"
definition CD_COMMAND :: string where "CD_COMMAND = ''cd''"
definition EXIT_COMMAND :: string where "EXIT_COMMAND = ''exit''"

definition TOKENS_SIZE :: nat where "TOKENS_SIZE = 64"
definition LINE_BUFFER_SIZE :: nat where "LINE_BUFFER_SIZE = 1024"

subsection \<open>The C library's string functions\<close>

text \<open>The byte a \<open>char *\<close> points at: the head of the list, or the terminator.\<close>

fun byte0 :: "string \<Rightarrow> char" where
  "byte0 [] = CHR 0x00"
| "byte0 (c # s) = c"

text \<open>
  \<open>strncmp(s1, s2, n)\<close>: compares at most \<open>n\<close> bytes as unsigned chars and stops after
  a NUL; the result is the difference of the first pair of bytes that differ.
\<close>

fun strncmp :: "string \<Rightarrow> string \<Rightarrow> nat \<Rightarrow> int" where
  "strncmp s1 s2 0 = 0"
| "strncmp s1 s2 (Suc n) =
     (if byte0 s1 \<noteq> byte0 s2 then of_char (byte0 s1) - of_char (byte0 s2)
      else if byte0 s1 = CHR 0x00 then 0
      else strncmp (tl s1) (tl s2) n)"

text \<open>The content of a buffer read as a C string: the bytes before the first NUL.\<close>

definition cstr :: "string \<Rightarrow> string" where
  "cstr buf = takeWhile (\<lambda>c. c \<noteq> CHR 0x00) buf"

text \<open>The delimiters \<open>" \n"\<close> passed to \<open>strtok\<close>.\<close>

definition is_delim :: "char \<Rightarrow> bool" where
  "is_delim c \<longleftrightarrow> c = CHR '' '' \<or> c = CHR 0x0A"

text \<open>
  One call of \<open>strtok\<close> on the rest of the line: skip the leading delimiters; at the
  end of the string return \<open>NULL\<close>; else the token runs up to the next delimiter, which
  is overwritten with NUL, and the scan resumes after it.
\<close>

definition strtok :: "string \<Rightarrow> (string \<times> string) option" where
  "strtok s =
     (let s1 = dropWhile is_delim s
      in if s1 = [] then None
         else Some (takeWhile (\<lambda>c. \<not> is_delim c) s1,
                    drop 1 (dropWhile (\<lambda>c. \<not> is_delim c) s1)))"

subsection \<open>check\_command\<close>

definition check_command :: "string \<Rightarrow> cmd_type" where
  "check_command command =
     (if strncmp CD_COMMAND command 3 = 0 then CD
      else if strncmp EXIT_COMMAND command 5 = 0 then EXIT
      else if strncmp SETENV_COMMAND command 7 = 0 then SETENV
      else if strncmp UNSETENV_COMMAND command 9 = 0 then UNSETENV
      else EXTERNAL)"

subsection \<open>Ways a call does not return normally\<close>

text \<open>
  The C program has no error type. What the model makes explicit is undefined
  behaviour (an access outside the token array, a \<open>NULL\<close> dereference) and the two ways
  \<open>run_command\<close> does not return: \<open>execvp\<close> succeeded, so the process now runs another
  program, or \<open>waitpid\<close> blocks forever on a child that never terminates.
\<close>

datatype stop =
    WriteOutOfBounds nat
  | ReadOutOfBounds nat
  | NullDereference
  | Replaced
  | Blocked

subsection \<open>tokenize\<close>

text \<open>
  The token array: \<open>TOKENS_SIZE\<close> pointers, all \<open>NULL\<close> after the \<open>memset\<close>. The loop
  stores the copy of each token at \<open>tokens[token_i]\<close> with no check of \<open>token_i\<close>
  against \<open>TOKENS_SIZE\<close>; a store at an index outside the allocation is undefined
  behaviour, which the model reports as \<open>WriteOutOfBounds\<close>.
\<close>

type_synonym tokens = "string option list"

function tokenize_loop :: "nat \<Rightarrow> tokens \<Rightarrow> string \<Rightarrow> stop + tokens" where
  "tokenize_loop token_i tokens s =
     (case strtok s of
        None \<Rightarrow> Inr tokens
      | Some (token, rest) \<Rightarrow>
          if token_i < length tokens
          then tokenize_loop (Suc token_i) (tokens[token_i := Some token]) rest
          else Inl (WriteOutOfBounds token_i))"
  by pat_completeness auto
termination
proof (relation "measure (\<lambda>(i, t, s). length s)")
  show "wf (measure (\<lambda>(i, t, s). length s))" by simp
next
  fix token_i :: nat and tokens :: tokens and s x2 token rest
  assume a: "strtok s = Some x2" "(token, rest) = x2"
  let ?s1 = "dropWhile is_delim s"
  from a have ne: "?s1 \<noteq> []"
    and r: "rest = drop 1 (dropWhile (\<lambda>c. \<not> is_delim c) ?s1)"
    by (auto simp: strtok_def Let_def split: if_splits)
  from ne obtain c cs where cs: "?s1 = c # cs" by (cases ?s1) auto
  then have "\<not> is_delim c" using hd_dropWhile[of is_delim s] by auto
  then have "length (dropWhile (\<lambda>c. \<not> is_delim c) ?s1) \<le> length cs"
    using cs length_dropWhile_le[of "\<lambda>c. \<not> is_delim c" cs] by simp
  then have "length rest \<le> length cs" using r by simp
  moreover have "length ?s1 \<le> length s" by (rule length_dropWhile_le)
  ultimately have "length rest < length s" using cs by simp
  then show "((Suc token_i, tokens[token_i := Some token], rest), (token_i, tokens, s))
      \<in> measure (\<lambda>(i, t, s). length s)" by simp
qed

definition tokenize :: "string \<Rightarrow> stop + tokens" where
  "tokenize command = tokenize_loop 0 (replicate TOKENS_SIZE None) command"

subsection \<open>Process-wide state and the operating system\<close>

text \<open>
  The state of the process: the environment, the working directory, what has been
  written to standard output and standard error, and the number of \<open>fork\<close> calls made
  so far.
\<close>

record world =
  env :: "string \<rightharpoonup> string"
  cwd :: string
  stdout :: "string list"
  stderr :: "string list"
  forks :: nat

text \<open>
  What the operating system answers to one \<open>fork\<close>, seen from the process that is
  modelled: \<open>fork_ret\<close> is the value \<open>fork\<close> returns there (negative: no child was
  created; positive: this is the parent; zero: this is the child), \<open>exec_ok\<close> says
  whether \<open>execvp\<close> of the named program succeeds in the child, and \<open>child_exits\<close>
  whether the child terminates, so that the parent's \<open>waitpid\<close> returns.
\<close>

record spawn =
  fork_ret :: int
  exec_ok :: bool
  child_exits :: bool

text \<open>
  The operating system: the answer to the n-th \<open>fork\<close>, and the result of \<open>chdir\<close>
  from a working directory to a path (\<open>None\<close> when it fails).
\<close>

record os =
  spawns :: "nat \<Rightarrow> spawn"
  chdir_res :: "string \<Rightarrow> string \<Rightarrow> string option"

text \<open>
  \<open>setenv(3)\<close> and \<open>unsetenv(3)\<close>: a name that is empty or contains \<open>=\<close> is refused
  (\<open>EINVAL\<close>), and the caller ignores the return value.
\<close>

definition setenv :: "string \<Rightarrow> string \<Rightarrow> bool \<Rightarrow> (string \<rightharpoonup> string) \<Rightarrow> (string \<rightharpoonup> string)" where
  "setenv name val overwrite e =
     (if name = [] \<or> CHR ''='' \<in> set name then e
      else if \<not> overwrite \<and> e name \<noteq> None then e
      else e(name \<mapsto> val))"

definition unsetenv :: "string \<Rightarrow> (string \<rightharpoonup> string) \<Rightarrow> (string \<rightharpoonup> string)" where
  "unsetenv name e =
     (if name = [] \<or> CHR ''='' \<in> set name then e else e(name := None))"

definition chdir :: "os \<Rightarrow> string \<Rightarrow> world \<Rightarrow> world" where
  "chdir os path w =
     (case chdir_res os (cwd w) path of None \<Rightarrow> w | Some d \<Rightarrow> w\<lparr>cwd := d\<rparr>)"

definition printf :: "string \<Rightarrow> world \<Rightarrow> world" where
  "printf msg w = w\<lparr>stdout := stdout w @ [msg]\<rparr>"

definition eprintf :: "string \<Rightarrow> world \<Rightarrow> world" where
  "eprintf msg w = w\<lparr>stderr := stderr w @ [msg]\<rparr>"

text \<open>Reading \<open>tokens[i]\<close>: outside the array the read is undefined behaviour.\<close>

definition rd :: "tokens \<Rightarrow> nat \<Rightarrow> stop + string option" where
  "rd tokens i = (if i < length tokens then Inr (tokens ! i) else Inl (ReadOutOfBounds i))"

subsection \<open>get\_line\<close>

text \<open>
  The input stream is the list of bytes not yet read. \<open>fgets(buf, size, input)\<close> reads
  at most \<open>size - 1\<close> bytes (\<open>n - 1\<close> below), stopping after a newline, and returns \<open>NULL\<close> when the
  stream is at its end and nothing was read.
\<close>

fun read_line :: "nat \<Rightarrow> string \<Rightarrow> string \<times> string" where
  "read_line 0 s = ([], s)"
| "read_line (Suc n) [] = ([], [])"
| "read_line (Suc n) (c # s) =
     (if c = CHR 0x0A then ([c], s)
      else (case read_line n s of (l, r) \<Rightarrow> (c # l, r)))"

definition fgets :: "nat \<Rightarrow> string \<Rightarrow> (string \<times> string) option" where
  "fgets n input = (if input = [] then None else Some (read_line (n - 1) input))"

definition get_line :: "string \<Rightarrow> stop + (tokens option \<times> string)" where
  "get_line input =
     (case fgets LINE_BUFFER_SIZE input of
        None \<Rightarrow> Inr (None, input)
      | Some (line_buffer, input') \<Rightarrow>
          (case tokenize (cstr line_buffer) of
             Inl u \<Rightarrow> Inl u
           | Inr tokens \<Rightarrow>
               (case rd tokens 0 of
                  Inl u \<Rightarrow> Inl u
                | Inr None \<Rightarrow> Inr (None, input')
                | Inr (Some t) \<Rightarrow> Inr (Some tokens, input'))))"

subsection \<open>run\_command\<close>

definition usage_setenv :: string where
  "usage_setenv = ''Expected usage: setenv <variable> <value>'' @ [CHR 0x0A]"
definition usage_unsetenv :: string where
  "usage_unsetenv = ''Expected usage: unsetenv <variable>'' @ [CHR 0x0A]"
definition usage_cd :: string where
  "usage_cd = ''Expected usage: cd <path>'' @ [CHR 0x0A]"
definition error_exec :: string where
  "error_exec = ''Error creating new process.'' @ [CHR 0x0A]"
definition error_fork :: string where
  "error_fork = ''Error forking.'' @ [CHR 0x0A]"

text \<open>
  The \<open>EXTERNAL\<close> case, in the process where \<open>fork\<close> returned \<open>cid\<close>. In the child
  (\<open>cid = 0\<close>) \<open>execvp\<close> reads the argument vector up to its first \<open>NULL\<close> and, when it
  succeeds, never returns; when it fails the child goes on with \<open>ret_val = -1\<close>.
  \<open>waitpid\<close> returns at once where there is no child to wait for.
\<close>

definition run_external :: "os \<Rightarrow> tokens \<Rightarrow> world \<Rightarrow> stop + (int \<times> world)" where
  "run_external os tokens w =
     (let sp = spawns os (forks w);
          cid = fork_ret sp;
          w1 = w\<lparr>forks := Suc (forks w)\<rparr>;
          child =
            (if cid = 0 then
               (if None \<notin> set tokens then Inl (ReadOutOfBounds (length tokens))
                else if exec_ok sp then Inl Replaced
                else Inr (- 1, eprintf error_exec w1))
             else Inr (1, w1))
      in case child of
           Inl u \<Rightarrow> Inl u
         | Inr (ret_val, w2) \<Rightarrow>
             (case (if cid < 0 then (- 1, eprintf error_fork w2) else (ret_val, w2)) of
                (ret_val', w3) \<Rightarrow>
                  if cid > 0 \<and> \<not> child_exits sp then Inl Blocked
                  else Inr (ret_val', w3)))"

definition run_command :: "os \<Rightarrow> tokens \<Rightarrow> world \<Rightarrow> stop + (int \<times> world)" where
  "run_command os tokens w =
     (case rd tokens 0 of
        Inl u \<Rightarrow> Inl u
      | Inr None \<Rightarrow> Inl NullDereference
      | Inr (Some command) \<Rightarrow>
          (case check_command command of
             SETENV \<Rightarrow>
               (case rd tokens 1 of
                  Inl u \<Rightarrow> Inl u
                | Inr None \<Rightarrow> Inr (1, printf usage_setenv w)
                | Inr (Some name) \<Rightarrow>
                    (case rd tokens 2 of
                       Inl u \<Rightarrow> Inl u
                     | Inr None \<Rightarrow> Inr (1, printf usage_setenv w)
                     | Inr (Some val) \<Rightarrow> Inr (1, w\<lparr>env := setenv name val True (env w)\<rparr>)))
           | UNSETENV \<Rightarrow>
               (case rd tokens 1 of
                  Inl u \<Rightarrow> Inl u
                | Inr None \<Rightarrow> Inr (1, printf usage_unsetenv w)
                | Inr (Some name) \<Rightarrow> Inr (1, w\<lparr>env := unsetenv name (env w)\<rparr>))
           | CD \<Rightarrow>
               (case rd tokens 1 of
                  Inl u \<Rightarrow> Inl u
                | Inr None \<Rightarrow> Inr (1, printf usage_cd w)
                | Inr (Some path) \<Rightarrow> Inr (1, chdir os path w))
           | EXIT \<Rightarrow> Inr (0, w)
           | EXTERNAL \<Rightarrow> run_external os tokens w))"

subsection \<open>cleanup\<close>

text \<open>
  \<open>cleanup\<close> frees the entries up to the first \<open>NULL\<close>; in an array with no \<open>NULL\<close>
  entry the walk reads past its end.
\<close>

definition cleanup :: "tokens \<Rightarrow> stop + unit" where
  "cleanup tokens =
     (if None \<in> set tokens then Inr () else Inl (ReadOutOfBounds (length tokens)))"

subsection \<open>initalize\<close>

text \<open>
  The \<open>while (1)\<close> loop over the resource file. The value \<open>run_command\<close> returns is
  not used.
\<close>

function initalize_loop :: "os \<Rightarrow> string \<Rightarrow> world \<Rightarrow> stop + world" where
  "initalize_loop os kapishrc w =
     (case get_line kapishrc of
        Inl u \<Rightarrow> Inl u
      | Inr (None, kapishrc') \<Rightarrow> Inr w
      | Inr (Some tokens, kapishrc') \<Rightarrow>
          (case run_command os tokens w of
             Inl u \<Rightarrow> Inl u
           | Inr (ret_val, w') \<Rightarrow>
               (case cleanup tokens of
                  Inl u \<Rightarrow> Inl u
                | Inr u \<Rightarrow> initalize_loop os kapishrc' w')))"
  by pat_completeness auto
termination
proof (relation "measure (\<lambda>(os, f, w). length f)")
  show "wf (measure (\<lambda>(os, f, w). length f))" by simp
next
  fix os :: os and kapishrc :: string and w w' :: world and b x1 tokens kapishrc' x2 c ret_val u
  assume a: "get_line kapishrc = Inr b" "(x1, kapishrc') = b" "x1 = Some tokens"
  have le: "length (snd (read_line n s)) \<le> length s" for n s
    by (induction n s rule: read_line.induct) (auto split: prod.splits)
  have rl: "length (snd (read_line (Suc n) s)) < length s \<or> s = []" for n s
  proof (cases s)
    case Nil
    then show ?thesis by simp
  next
    case (Cons c cs)
    then show ?thesis using le[of n cs] by (auto split: prod.splits)
  qed
  from a have "kapishrc \<noteq> [] \<and> kapishrc' = snd (read_line (LINE_BUFFER_SIZE - 1) kapishrc)"
    by (auto simp: get_line_def fgets_def split: if_splits sum.splits option.splits prod.splits)
  then have "length kapishrc' < length kapishrc"
    using rl[of 1022 kapishrc] by (simp add: LINE_BUFFER_SIZE_def)
  then show "((os, kapishrc', w'), (os, kapishrc, w)) \<in> measure (\<lambda>(os, f, w). length f)"
    by simp
qed

text \<open>
  \<open>username\<close> is what \<open>getlogin()\<close> returns, \<open>None\<close> for \<open>NULL\<close>: the code passes it to
  \<open>strlen\<close> with no check, so a \<open>NULL\<close> is dereferenced there, before \<open>fopen\<close>.
  \<open>kapishrc\<close> is the content of the file \<open>/home/<username>/.kapishrc\<close>, \<open>None\<close> when
  \<open>fopen\<close> fails. The buffer for the path has room for exactly the 16 fixed characters,
  the user name and the terminator.
\<close>

definition initalize :: "os \<Rightarrow> string option \<Rightarrow> string option \<Rightarrow> world \<Rightarrow> stop + (int \<times> world)" where
  "initalize os username kapishrc w =
     (case username of
        None \<Rightarrow> Inl NullDereference
      | Some name \<Rightarrow>
          (case kapishrc of
             None \<Rightarrow> Inr (0, w)
           | Some f \<Rightarrow>
               (case initalize_loop os f w of
                  Inl u \<Rightarrow> Inl u
                | Inr w' \<Rightarrow> Inr (0, w'))))"

subsection \<open>loop and main\<close>

text \<open>
  The interactive loop may run forever: the result \<open>None\<close> is "does not return".
\<close>

partial_function (option) loop_from :: "os \<Rightarrow> string \<Rightarrow> world \<Rightarrow> int \<Rightarrow> (stop + (int \<times> world)) option" where
  "loop_from os input w program_status =
     (if program_status > 0 then
        (case get_line input of
           Inl u \<Rightarrow> Some (Inl u)
         | Inr (None, input') \<Rightarrow> loop_from os input' (printf ''? '' w) program_status
         | Inr (Some tokens, input') \<Rightarrow>
             (case run_command os tokens (printf ''? '' w) of
                Inl u \<Rightarrow> Some (Inl u)
              | Inr (ret_val, w') \<Rightarrow>
                  (case cleanup tokens of
                     Inl u \<Rightarrow> Some (Inl u)
                   | Inr u \<Rightarrow> loop_from os input' w' ret_val)))
      else Some (Inr (program_status, w)))"

definition loop :: "os \<Rightarrow> string \<Rightarrow> world \<Rightarrow> (stop + (int \<times> world)) option" where
  "loop os input w = loop_from os input w 1"

text \<open>
  \<open>main\<close> returns the exit status of the process: \<open>exit(ret_val)\<close> passes the low
  eight bits of \<open>ret_val\<close>, and falling off the end of \<open>main\<close> is status 0.
\<close>

definition main :: "os \<Rightarrow> string option \<Rightarrow> string option \<Rightarrow> string \<Rightarrow> world \<Rightarrow> (stop + (int \<times> world)) option" where
  "main os username kapishrc input w =
     (case initalize os username kapishrc w of
        Inl u \<Rightarrow> Some (Inl u)
      | Inr (ret_val, w1) \<Rightarrow>
          if ret_val \<noteq> 0 then Some (Inr (ret_val mod 256, w1))
          else (case loop os input w1 of
                  None \<Rightarrow> None
                | Some (Inl u) \<Rightarrow> Some (Inl u)
                | Some (Inr (ret_val', w2)) \<Rightarrow>
                    if ret_val' \<noteq> 0 then Some (Inr (ret_val' mod 256, w2))
                    else Some (Inr (0, w2))))"

subsection \<open>The tokens of a line, as the specification describes them\<close>

text \<open>
  The specification's tokenizer contract, for comparison with \<open>tokenize\<close>: a line is
  cut at every space and newline (\<open>split_fields\<close>), and the tokens are the fields that
  are not empty, in order, so that a run of delimiters separates two tokens once.
\<close>

fun split_fields :: "string \<Rightarrow> string list" where
  "split_fields [] = [[]]"
| "split_fields (c # s) =
     (if is_delim c then [] # split_fields s
      else (case split_fields s of f # fs \<Rightarrow> (c # f) # fs | [] \<Rightarrow> [[c]]))"

definition line_tokens :: "string \<Rightarrow> string list" where
  "line_tokens s = filter (\<lambda>f. f \<noteq> []) (split_fields s)"

subsection \<open>Concrete states and operating systems\<close>

text \<open>
  A starting state with an empty environment, and an operating system that gives the
  same answer to every \<open>fork\<close> and lets every \<open>chdir\<close> succeed.
\<close>

definition world0 :: world where
  "world0 = \<lparr>env = Map.empty, cwd = ''/'', stdout = [], stderr = [], forks = 0\<rparr>"

definition os_const :: "spawn \<Rightarrow> os" where
  "os_const sp = \<lparr>spawns = (\<lambda>n. sp), chdir_res = (\<lambda>d p. Some p)\<rparr>"

section \<open>Properties\<close>

subsection \<open>Classification\<close>

lemma of_char_zero_iff: "(of_char a = (0::int)) = (a = CHR 0x00)"
  using of_char_eq_iff[where ?'a = int, of a "CHR 0x00"] by simp

text \<open>
  Comparing one byte more than the length of the first string compares its terminator
  too, so the result is zero for equal strings only.
\<close>

lemma strncmp_whole:
  "CHR 0x00 \<notin> set a \<Longrightarrow> CHR 0x00 \<notin> set b \<Longrightarrow>
     (strncmp a b (Suc (length a)) = 0) = (a = b)"
proof (induction a arbitrary: b)
  case Nil
  then show ?case by (cases b) (auto simp: of_char_zero_iff)
next
  case (Cons x xs)
  then show ?case by (cases b) (auto simp: of_char_zero_iff)
qed

text \<open>
  C2. Classification is by exact, case-sensitive equality of the whole first token with
  one of \<open>cd\<close>, \<open>exit\<close>, \<open>setenv\<close>, \<open>unsetenv\<close>: the lengths 3, 5, 7 and 9 given to
  \<open>strncmp\<close> are one more than the lengths of the names, so the terminator takes part
  in the comparison. Every C string (no NUL inside) that is none of the four names is
  \<open>EXTERNAL\<close>; in particular \<open>exit\<close> is \<open>EXIT\<close>, \<open>setenv\<close> is \<open>SETENV\<close> and \<open>cdx\<close> is
  \<open>EXTERNAL\<close>.
\<close>

theorem check_command_exact:
  assumes "CHR 0x00 \<notin> set command"
  shows "check_command command =
           (if command = ''cd'' then CD
            else if command = ''exit'' then EXIT
            else if command = ''setenv'' then SETENV
            else if command = ''unsetenv'' then UNSETENV
            else EXTERNAL)"
proof -
  have cd: "(strncmp ''cd'' command 3 = 0) = (''cd'' = command)"
    using strncmp_whole[of "''cd''" command] assms by (simp add: eval_nat_numeral)
  have ex: "(strncmp ''exit'' command 5 = 0) = (''exit'' = command)"
    using strncmp_whole[of "''exit''" command] assms by (simp add: eval_nat_numeral)
  have se: "(strncmp ''setenv'' command 7 = 0) = (''setenv'' = command)"
    using strncmp_whole[of "''setenv''" command] assms by (simp add: eval_nat_numeral)
  have un: "(strncmp ''unsetenv'' command 9 = 0) = (''unsetenv'' = command)"
    using strncmp_whole[of "''unsetenv''" command] assms by (simp add: eval_nat_numeral)
  show ?thesis
    unfolding check_command_def CD_COMMAND_def EXIT_COMMAND_def SETENV_COMMAND_def
      UNSETENV_COMMAND_def
    by (simp only: cd ex se un) auto
qed

theorem check_command_exact_witness:
  "check_command ''exit'' = EXIT \<and> check_command ''setenv'' = SETENV
   \<and> check_command ''cdx'' = EXTERNAL \<and> check_command ''Exit'' = EXTERNAL
   \<and> check_command ''unsetenv'' = UNSETENV \<and> check_command ''cd'' = CD
   \<and> check_command [] = EXTERNAL"
  using check_command_exact[of "''exit''"] check_command_exact[of "''setenv''"]
    check_command_exact[of "''cdx''"] check_command_exact[of "''Exit''"]
    check_command_exact[of "''unsetenv''"] check_command_exact[of "''cd''"]
    check_command_exact[of "[]"]
  by simp

subsection \<open>The tokenizer\<close>

text \<open>\<open>strtok\<close> yields the tokens of the specification one at a time.\<close>

lemma split_fields_ne: "split_fields s \<noteq> []"
  by (induction s) (auto split: list.splits)

lemma split_fields_run:
  "split_fields s = takeWhile (\<lambda>c. \<not> is_delim c) s #
     (case dropWhile (\<lambda>c. \<not> is_delim c) s of [] \<Rightarrow> [] | d # r \<Rightarrow> split_fields r)"
  by (induction s) (auto split: list.splits)

lemma line_tokens_delim: "is_delim c \<Longrightarrow> line_tokens (c # s) = line_tokens s"
  by (simp add: line_tokens_def)

lemma line_tokens_dropWhile: "line_tokens (dropWhile is_delim s) = line_tokens s"
  by (induction s) (auto simp: line_tokens_delim)

lemma line_tokens_Nil: "line_tokens [] = []"
  by (simp add: line_tokens_def)

lemma line_tokens_all_delim: "\<forall>c\<in>set s. is_delim c \<Longrightarrow> line_tokens s = []"
  by (induction s) (auto simp: line_tokens_delim line_tokens_Nil)

lemma strtok_None: "strtok s = None \<Longrightarrow> line_tokens s = []"
  by (auto simp: strtok_def Let_def line_tokens_all_delim split: if_splits)

lemma strtok_Some:
  assumes "strtok s = Some (tok, rest)"
  shows "line_tokens s = tok # line_tokens rest"
proof -
  let ?s1 = "dropWhile is_delim s"
  let ?nd = "\<lambda>c. \<not> is_delim c"
  from assms have ne: "?s1 \<noteq> []" and t: "tok = takeWhile ?nd ?s1"
    and r: "rest = drop 1 (dropWhile ?nd ?s1)"
    by (auto simp: strtok_def Let_def split: if_splits)
  from ne have "\<not> is_delim (hd ?s1)" using hd_dropWhile[of is_delim s] by simp
  with ne have tne: "tok \<noteq> []" unfolding t by (cases ?s1) auto
  have sf: "split_fields ?s1 =
      tok # (case dropWhile ?nd ?s1 of [] \<Rightarrow> [] | d # r \<Rightarrow> split_fields r)"
    unfolding t by (rule split_fields_run)
  have tl: "filter (\<lambda>f. f \<noteq> [])
      (case dropWhile ?nd ?s1 of [] \<Rightarrow> [] | d # r \<Rightarrow> split_fields r) = line_tokens rest"
  proof (cases "dropWhile ?nd ?s1")
    case Nil
    have "rest = []" unfolding r Nil by simp
    then show ?thesis unfolding Nil by (simp add: line_tokens_Nil)
  next
    case (Cons d r')
    have "rest = r'" unfolding r Cons by simp
    then show ?thesis unfolding Cons by (simp add: line_tokens_def)
  qed
  have "line_tokens ?s1 = tok # line_tokens rest"
    unfolding line_tokens_def[of ?s1] sf using tne tl by simp
  then show ?thesis by (simp add: line_tokens_dropWhile)
qed

lemma tokenize_loop_spec:
  "tokenize_loop i arr s =
     (if i + length (line_tokens s) \<le> length arr \<or> line_tokens s = []
      then Inr (take i arr @ map Some (line_tokens s) @ drop (i + length (line_tokens s)) arr)
      else Inl (WriteOutOfBounds (max i (length arr))))"
proof (induction i arr s rule: tokenize_loop.induct)
  case (1 i arr s)
  show ?case
  proof (cases "strtok s")
    case None
    then show ?thesis using strtok_None[OF None] by (subst tokenize_loop.simps) simp
  next
    case (Some p)
    obtain tok rest where p: "p = (tok, rest)" by (cases p)
    note lt = strtok_Some[OF Some[unfolded p]]
    show ?thesis
    proof (cases "i < length arr")
      case True
      have upd: "take (Suc i) (arr[i := Some tok]) = take i arr @ [Some tok]"
        using True by (simp add: take_Suc_conv_app_nth)
      show ?thesis
        using 1[OF Some p[symmetric] True] True lt Some p upd
        by (subst tokenize_loop.simps) (auto simp: max_def)
    next
      case False
      then show ?thesis using lt Some p
        by (subst tokenize_loop.simps) (auto simp: max_def)
    qed
  qed
qed

lemma tokenize_spec:
  "tokenize s =
     (if length (line_tokens s) \<le> TOKENS_SIZE
      then Inr (map Some (line_tokens s) @ replicate (TOKENS_SIZE - length (line_tokens s)) None)
      else Inl (WriteOutOfBounds TOKENS_SIZE))"
  unfolding tokenize_def tokenize_loop_spec by (auto simp: line_tokens_Nil)

lemma split_fields_all: "\<forall>f\<in>set (split_fields s). \<forall>c\<in>set f. \<not> is_delim c"
  by (induction s) (auto split: list.splits)

lemma split_fields_no_delim: "f \<in> set (split_fields s) \<Longrightarrow> c \<in> set f \<Longrightarrow> \<not> is_delim c"
  using split_fields_all by blast

lemma line_tokens_tokens:
  "t \<in> set (line_tokens s) \<Longrightarrow> t \<noteq> [] \<and> (\<forall>c\<in>set t. \<not> is_delim c)"
  by (auto simp: line_tokens_def dest: split_fields_no_delim)

lemma split_fields_append:
  "is_delim d \<Longrightarrow> split_fields (a @ d # b) = split_fields a @ split_fields b"
  by (induction a) (auto split: list.splits simp: split_fields_ne)

lemma line_tokens_append:
  "is_delim d \<Longrightarrow> line_tokens (a @ d # b) = line_tokens a @ line_tokens b"
  by (simp add: line_tokens_def split_fields_append)

lemma line_tokens_word:
  "t \<noteq> [] \<Longrightarrow> \<forall>c\<in>set t. \<not> is_delim c \<Longrightarrow> line_tokens t = [t]"
proof -
  assume a: "t \<noteq> []" "\<forall>c\<in>set t. \<not> is_delim c"
  then have "takeWhile (\<lambda>c. \<not> is_delim c) t = t" "dropWhile (\<lambda>c. \<not> is_delim c) t = []"
    by simp_all
  then have "split_fields t = [t]" by (subst split_fields_run) (simp only: list.case)
  then show ?thesis using a by (simp add: line_tokens_def)
qed

lemma tokenize_length: "tokenize s = Inr tokens \<Longrightarrow> length tokens = TOKENS_SIZE"
  by (auto simp: tokenize_spec split: if_splits)

text \<open>Tokens are parts of the line, and what \<open>get_line\<close> returns has no NUL inside.\<close>

lemma split_fields_subset: "f \<in> set (split_fields s) \<Longrightarrow> set f \<subseteq> set s"
proof (induction s arbitrary: f)
  case Nil
  then show ?case by simp
next
  case (Cons c s)
  then show ?case by (fastforce split: if_splits list.splits)
qed

lemma line_tokens_subset: "t \<in> set (line_tokens s) \<Longrightarrow> set t \<subseteq> set s"
  by (auto simp: line_tokens_def dest: split_fields_subset)

lemma cstr_no_nul: "CHR 0x00 \<notin> set (cstr buf)"
  unfolding cstr_def by (auto dest: set_takeWhileD)

lemma get_line_tokens_no_nul:
  assumes "get_line input = Inr (Some tokens, rest)" and "Some t \<in> set tokens"
  shows "CHR 0x00 \<notin> set t"
proof -
  from assms(1) obtain line where tk: "tokenize (cstr line) = Inr tokens"
    by (auto simp: get_line_def split: sum.splits option.splits prod.splits)
  then have "tokens = map Some (line_tokens (cstr line))
      @ replicate (TOKENS_SIZE - length (line_tokens (cstr line))) None"
    by (simp add: tokenize_spec split: if_splits)
  with assms(2) have "t \<in> set (line_tokens (cstr line))" by auto
  then show ?thesis using line_tokens_subset cstr_no_nul by blast
qed

text \<open>
  C8. The tokenizer splits on runs of space and newline: the line \<open>setenv FOO bar\<close>
  with its newline gives exactly the three tokens \<open>setenv\<close>, \<open>FOO\<close>, \<open>bar\<close> (the rest of
  the array is \<open>NULL\<close>); a line of delimiters only, or of length zero, gives no token;
  a line of at most \<open>TOKENS_SIZE\<close> tokens gives its non-empty fields in order; and
  whenever the tokenizer returns an array, its entries are these fields, none of them
  empty or containing a space or a newline.
\<close>

theorem tokenize_splits:
  "tokenize ''setenv FOO bar\<newline>''
     = Inr (Some ''setenv'' # Some ''FOO'' # Some ''bar'' # replicate 61 None)
   \<and> ((\<forall>c\<in>set s. is_delim c) \<longrightarrow> tokenize s = Inr (replicate TOKENS_SIZE None))
   \<and> (length (line_tokens s) \<le> TOKENS_SIZE \<longrightarrow>
        tokenize s
          = Inr (map Some (line_tokens s) @ replicate (TOKENS_SIZE - length (line_tokens s)) None))
   \<and> (\<forall>tokens. tokenize s = Inr tokens \<longrightarrow>
        tokens = map Some (line_tokens s) @ replicate (TOKENS_SIZE - length (line_tokens s)) None
        \<and> (\<forall>t. Some t \<in> set tokens \<longrightarrow> t \<noteq> [] \<and> CHR '' '' \<notin> set t \<and> CHR 0x0A \<notin> set t))"
proof (intro conjI allI impI)
  show "tokenize ''setenv FOO bar\<newline>''
     = Inr (Some ''setenv'' # Some ''FOO'' # Some ''bar'' # replicate 61 None)"
    by code_simp
next
  assume "\<forall>c\<in>set s. is_delim c"
  then show "tokenize s = Inr (replicate TOKENS_SIZE None)"
    by (simp add: tokenize_spec line_tokens_all_delim)
next
  assume "length (line_tokens s) \<le> TOKENS_SIZE"
  then show "tokenize s
      = Inr (map Some (line_tokens s) @ replicate (TOKENS_SIZE - length (line_tokens s)) None)"
    by (simp add: tokenize_spec)
next
  fix tokens assume a: "tokenize s = Inr tokens"
  then show eq: "tokens = map Some (line_tokens s) @ replicate (TOKENS_SIZE - length (line_tokens s)) None"
    by (simp add: tokenize_spec split: if_splits)
  fix t assume "Some t \<in> set tokens"
  then have "t \<in> set (line_tokens s)" unfolding eq by auto
  from line_tokens_tokens[OF this]
  show "t \<noteq> []" "CHR '' '' \<notin> set t" "CHR 0x0A \<notin> set t"
    by (auto simp: is_delim_def)
qed

theorem tokenize_splits_witness:
  "tokenize ''  \<newline>'' = Inr (replicate TOKENS_SIZE None)
   \<and> tokenize [] = Inr (replicate TOKENS_SIZE None)
   \<and> tokenize ''a  b\<newline>'' = Inr (map Some [''a'', ''b''] @ replicate 62 None)
   \<and> map Some [''a'', ''b''] @ replicate 62 None
       = map Some (line_tokens ''a  b\<newline>'')
         @ replicate (TOKENS_SIZE - length (line_tokens ''a  b\<newline>'')) None"
proof -
  have h: "\<forall>c\<in>set ''  \<newline>''. is_delim c" by (simp add: is_delim_def)
  have e: "\<forall>c\<in>set []. is_delim c" by simp
  have t: "tokenize ''a  b\<newline>'' = Inr (map Some [''a'', ''b''] @ replicate 62 None)"
    by code_simp
  have l: "length (line_tokens ''a  b\<newline>'') \<le> TOKENS_SIZE" by code_simp
  from l tokenize_splits[of "''  \<newline>''"] tokenize_splits[of "[]"]
    tokenize_splits[of "''a  b\<newline>''"] h e t
  show ?thesis by blast
qed

text \<open>
  C7. A line of 65 tokens (130 bytes, well inside the line buffer): the loop stores the
  65th token at \<open>tokens[64]\<close>, one past the 64 pointers allocated. Nothing in
  \<open>tokenize\<close> or \<open>get_line\<close> grows the array or reports an error.
\<close>

theorem get_line_65_tokens_overflow:
  "get_line (concat (replicate 65 ''a '') @ ''\<newline>'') = Inl (WriteOutOfBounds 64)"
  by code_simp

text \<open>
  A line of exactly 64 tokens fills the array and leaves no \<open>NULL\<close> after the last
  token: \<open>cleanup\<close> then reads past the end.
\<close>

lemma get_line_64_tokens_unterminated:
  "get_line (concat (replicate 64 ''a '') @ ''\<newline>'') = Inr (Some (replicate 64 (Some ''a'')), [])
   \<and> cleanup (replicate 64 (Some ''a'')) = Inl (ReadOutOfBounds 64)"
  by code_simp

text \<open>
  C10. For a line of at most 63 tokens, the array \<open>get_line\<close> returns has
  \<open>TOKENS_SIZE\<close> entries: a positive number \<open>n\<close> of non-\<open>NULL\<close>, non-empty tokens, then
  \<open>NULL\<close> from index \<open>n\<close> on. So \<open>run_command\<close> reads \<open>tokens[0..2]\<close> inside the array
  and never dereferences \<open>NULL\<close>, and \<open>cleanup\<close> finds the terminating \<open>NULL\<close>.
\<close>

theorem get_line_tokens_invariant:
  assumes "fgets LINE_BUFFER_SIZE input = Some (line, rest)"
    and "length (line_tokens (cstr line)) < TOKENS_SIZE"
    and "get_line input = Inr (Some tokens, rest')"
  shows "length tokens = TOKENS_SIZE
       \<and> (\<exists>n. 0 < n \<and> n < TOKENS_SIZE
            \<and> (\<forall>i<n. \<exists>t. tokens ! i = Some t \<and> t \<noteq> [])
            \<and> (\<forall>i. n \<le> i \<and> i < TOKENS_SIZE \<longrightarrow> tokens ! i = None))
       \<and> rd tokens 0 = Inr (tokens ! 0) \<and> rd tokens 1 = Inr (tokens ! 1)
       \<and> rd tokens 2 = Inr (tokens ! 2)
       \<and> cleanup tokens = Inr ()
       \<and> run_command os tokens w \<noteq> Inl NullDereference
       \<and> (\<forall>k. run_command os tokens w \<noteq> Inl (ReadOutOfBounds k))"
proof -
  let ?toks = "line_tokens (cstr line)"
  let ?n = "length ?toks"
  from assms(1,3) have tk: "tokenize (cstr line) = Inr tokens"
    and hd: "\<exists>t. rd tokens 0 = Inr (Some t)"
    by (auto simp: get_line_def split: sum.splits option.splits)
  from tk assms(2) have eq: "tokens = map Some ?toks @ replicate (TOKENS_SIZE - ?n) None"
    by (simp add: tokenize_spec)
  then have len: "length tokens = TOKENS_SIZE" using assms(2) by simp
  from hd len have "tokens ! 0 \<noteq> None" by (auto simp: rd_def TOKENS_SIZE_def)
  then have npos: "0 < ?n" using eq assms(2) by (cases ?toks) auto
  have front: "\<forall>i<?n. \<exists>t. tokens ! i = Some t \<and> t \<noteq> []"
  proof (intro allI impI)
    fix i assume i: "i < ?n"
    then have "tokens ! i = Some (?toks ! i)" by (subst eq) (simp add: nth_append)
    moreover have "?toks ! i \<noteq> []" using line_tokens_tokens[of "?toks ! i" "cstr line"] i by simp
    ultimately show "\<exists>t. tokens ! i = Some t \<and> t \<noteq> []" by simp
  qed
  have tail_null: "\<forall>i. ?n \<le> i \<and> i < TOKENS_SIZE \<longrightarrow> tokens ! i = None"
  proof (intro allI impI)
    fix i assume i: "?n \<le> i \<and> i < TOKENS_SIZE"
    then have "i - ?n < TOKENS_SIZE - ?n" by arith
    then have "replicate (TOKENS_SIZE - ?n) None ! (i - ?n) = (None :: string option)"
      by (rule nth_replicate)
    then show "tokens ! i = None" using i by (subst eq) (simp add: nth_append)
  qed
  have nul: "None \<in> set tokens" using assms(2) by (subst eq) simp
  have rds: "rd tokens 0 = Inr (tokens ! 0)" "rd tokens 1 = Inr (tokens ! 1)"
    "rd tokens 2 = Inr (tokens ! 2)"
    using len by (simp_all add: rd_def TOKENS_SIZE_def)
  have cl: "cleanup tokens = Inr ()" using nul by (simp add: cleanup_def)
  have ext: "run_external os tokens w \<noteq> Inl NullDereference"
     "\<And>k. run_external os tokens w \<noteq> Inl (ReadOutOfBounds k)"
    using nul by (auto simp: run_external_def Let_def split: if_splits prod.splits)
  have rc1: "run_command os tokens w \<noteq> Inl NullDereference"
    using hd rds ext(1)
    by (auto simp: run_command_def split: cmd_type.splits option.splits)
  have rc2: "\<forall>k. run_command os tokens w \<noteq> Inl (ReadOutOfBounds k)"
    using hd rds ext(2)
    by (auto simp: run_command_def split: cmd_type.splits option.splits)
  show ?thesis using len npos assms(2) front tail_null rds cl rc1 rc2 by blast
qed

theorem get_line_tokens_invariant_witness:
  "fgets LINE_BUFFER_SIZE ''cd /tmp\<newline>'' = Some (''cd /tmp\<newline>'', [])
   \<and> length (line_tokens (cstr ''cd /tmp\<newline>'')) < TOKENS_SIZE
   \<and> get_line ''cd /tmp\<newline>'' = Inr (Some (Some ''cd'' # Some ''/tmp'' # replicate 62 None), [])
   \<and> cleanup (Some ''cd'' # Some ''/tmp'' # replicate 62 None) = Inr ()
   \<and> rd (Some ''cd'' # Some ''/tmp'' # replicate 62 None) 2 = Inr ((Some ''cd'' # Some ''/tmp'' # replicate 62 None) ! 2)"
proof -
  have h1: "fgets LINE_BUFFER_SIZE ''cd /tmp\<newline>'' = Some (''cd /tmp\<newline>'', [])"
    by code_simp
  have h2: "length (line_tokens (cstr ''cd /tmp\<newline>'')) < TOKENS_SIZE"
    by code_simp
  have h3: "get_line ''cd /tmp\<newline>'' = Inr (Some (Some ''cd'' # Some ''/tmp'' # replicate 62 None), [])"
    by code_simp
  from get_line_tokens_invariant[OF h1 h2 h3] h1 h2 h3 show ?thesis by blast
qed

subsection \<open>Example lines\<close>

lemma get_line_exit_then_setenv:
  "get_line ''exit\<newline>setenv A 1\<newline>''
     = Inr (Some (Some ''exit'' # replicate 63 None), ''setenv A 1\<newline>'')"
  by code_simp

lemma get_line_nosuch_then_setenv:
  "get_line ''nosuchprogram\<newline>setenv A 1\<newline>''
     = Inr (Some (Some ''nosuchprogram'' # replicate 63 None), ''setenv A 1\<newline>'')"
  by code_simp

lemma get_line_setenv_A:
  "get_line ''setenv A 1\<newline>''
     = Inr (Some (Some ''setenv'' # Some ''A'' # Some ''1'' # replicate 61 None), [])"
  by code_simp

lemma dispatch_exit: "run_command os (Some ''exit'' # replicate 63 None) w = Inr (0, w)"
proof -
  have c: "check_command ''exit'' = EXIT" by code_simp
  show ?thesis by (simp add: run_command_def rd_def c)
qed

lemma dispatch_setenv_A:
  "run_command os (Some ''setenv'' # Some ''A'' # Some ''1'' # replicate 61 None) w
     = Inr (1, w\<lparr>env := (env w)(''A'' \<mapsto> ''1'')\<rparr>)"
proof -
  have c: "check_command ''setenv'' = SETENV" by code_simp
  show ?thesis by (simp add: run_command_def rd_def c setenv_def)
qed

lemma cleanup_ok: "cleanup (t # replicate 63 None) = Inr ()"
  "cleanup (t # u # v # replicate 61 None) = Inr ()"
  by (simp_all add: cleanup_def)

subsection \<open>End of input\<close>

text \<open>
  C5. \<open>get_line\<close> returns \<open>NULL\<close> for a blank line and \<open>NULL\<close> at the end of the stream:
  the two outcomes are the same value, so no caller can tell them apart. The startup
  pass, which stops at \<open>NULL\<close>, stops at a blank line and leaves the line after it
  undispatched.
\<close>

theorem get_line_blank_is_eof:
  "get_line ''\<newline>'' = Inr (None, []) \<and> get_line ''   \<newline>'' = Inr (None, [])
   \<and> get_line [] = Inr (None, [])
   \<and> initalize_loop os ''\<newline>setenv A 1\<newline>'' w = Inr w"
proof -
  have "get_line ''\<newline>'' = Inr (None, [])" "get_line ''   \<newline>'' = Inr (None, [])"
    "get_line [] = Inr (None, [])"
    "get_line ''\<newline>setenv A 1\<newline>'' = Inr (None, ''setenv A 1\<newline>'')"
    by code_simp+
  then show ?thesis by simp
qed

lemma get_line_eof: "get_line [] = Inr (None, [])"
  by (simp add: get_line_def fgets_def)

lemma loop_from_eof:
  assumes "loop_from os input w st = Some y"
  shows "input \<noteq> [] \<or> st \<le> 0"
  by (rule loop_from.raw_induct[where P = "\<lambda>os input w st y. input \<noteq> [] \<or> st \<le> 0", OF _ assms])
     (fastforce simp: get_line_eof split: if_splits)

text \<open>
  C4. At the end of the interactive stream \<open>get_line\<close> returns \<open>NULL\<close>, \<open>loop\<close> takes it
  for a blank line and asks again, for ever: on the empty stream, and on a stream that
  ends after the line \<open>setenv A 1\<close>, \<open>loop\<close> does not return, and neither does \<open>main\<close>
  (for any login name, with no resource file), so there is no exit status. Where
  \<open>getlogin\<close> returns \<open>NULL\<close>, \<open>main\<close> does not reach the loop: it dereferences \<open>NULL\<close>.
\<close>

theorem loop_eof_never_returns:
  "loop os [] w = None \<and> main os (Some name) None [] w = None
   \<and> loop os ''setenv A 1\<newline>'' w = None
   \<and> main os None None [] w = Some (Inl NullDereference)"
proof -
  have e: "loop_from os [] w' 1 = None" for os w'
    using loop_from_eof[of os "[]" w' 1] by (cases "loop_from os [] w' 1") auto
  have "loop os ''setenv A 1\<newline>'' w
      = loop_from os [] ((printf ''? '' w)\<lparr>env := (env w)(''A'' \<mapsto> ''1'')\<rparr>) 1"
    unfolding loop_def
    by (subst loop_from.simps)
       (simp add: get_line_setenv_A dispatch_setenv_A cleanup_ok printf_def)
  then show ?thesis using e by (simp add: main_def initalize_def loop_def)
qed

subsection \<open>Dispatch\<close>




text \<open>
  C3, as stated, fails on a \<open>setenv\<close> line with three arguments: the number of arguments
  is not 2, yet no usage message is written and the variable is set.
\<close>

theorem run_command_setenv_counterexample:
  "run_command (os_const \<lparr>fork_ret = 1, exec_ok = True, child_exits = True\<rparr>)
      (Some ''setenv'' # Some ''A'' # Some ''1'' # Some ''extra'' # replicate 60 None)
      world0
     = Inr (1, world0\<lparr>env := [''A'' \<mapsto> ''1'']\<rparr>)"
  by (simp add: run_command_def rd_def world0_def setenv_def
      check_command_def CD_COMMAND_def EXIT_COMMAND_def SETENV_COMMAND_def UNSETENV_COMMAND_def
      eval_nat_numeral)

text \<open>
  C3, amended. For a first token that classifies as \<open>SETENV\<close>: when \<open>tokens[1]\<close> or
  \<open>tokens[2]\<close> is \<open>NULL\<close> (fewer than two arguments) the dispatcher writes the usage
  message and returns 1, the environment and the working directory unchanged; when both
  are present it calls \<open>setenv\<close> with them, whatever follows, and returns 1, and for a
  name \<open>setenv\<close> accepts (not empty, no \<open>=\<close>) the variable then has the given value,
  whatever it was before.
\<close>

theorem run_command_setenv:
  assumes "rd tokens 0 = Inr (Some command)"
    and "check_command command = SETENV"
    and "2 < length tokens"
  shows "(tokens ! 1 = None \<or> tokens ! 2 = None \<longrightarrow>
            run_command os tokens w = Inr (1, printf usage_setenv w)
            \<and> env (printf usage_setenv w) = env w \<and> cwd (printf usage_setenv w) = cwd w)
       \<and> (\<forall>name val. tokens ! 1 = Some name \<and> tokens ! 2 = Some val \<longrightarrow>
            run_command os tokens w = Inr (1, w\<lparr>env := setenv name val True (env w)\<rparr>)
            \<and> (name \<noteq> [] \<and> CHR ''='' \<notin> set name \<longrightarrow>
                 setenv name val True (env w) = (env w)(name \<mapsto> val)))"
  using assms
  by (auto simp: run_command_def rd_def printf_def setenv_def split: option.splits)

theorem run_command_setenv_witness:
  "run_command (os_const \<lparr>fork_ret = 1, exec_ok = True, child_exits = True\<rparr>)
      (Some ''setenv'' # Some ''X'' # replicate 62 None) world0
     = Inr (1, printf usage_setenv world0)
   \<and> env (printf usage_setenv world0) = env world0
   \<and> run_command (os_const \<lparr>fork_ret = 1, exec_ok = True, child_exits = True\<rparr>)
      (Some ''setenv'' # Some ''X'' # Some ''1'' # replicate 61 None) (world0\<lparr>env := [''X'' \<mapsto> ''0'']\<rparr>)
     = Inr (1, world0\<lparr>env := [''X'' \<mapsto> ''1'']\<rparr>)"
proof -
  let ?os = "os_const \<lparr>fork_ret = 1, exec_ok = True, child_exits = True\<rparr>"
  let ?t1 = "Some ''setenv'' # Some ''X'' # replicate 62 None"
  let ?t2 = "Some ''setenv'' # Some ''X'' # Some ''1'' # replicate 61 None"
  have c: "check_command ''setenv'' = SETENV" by code_simp
  have r1: "rd ?t1 0 = Inr (Some ''setenv'')" and r2: "rd ?t2 0 = Inr (Some ''setenv'')"
    by (simp_all add: rd_def)
  have l1: "2 < length ?t1" and l2: "2 < length ?t2" by simp_all
  have n1: "?t1 ! 1 = None \<or> ?t1 ! 2 = None" by (simp add: eval_nat_numeral)
  have n2: "?t2 ! 1 = Some ''X'' \<and> ?t2 ! 2 = Some ''1''" by (simp add: eval_nat_numeral)
  have v: "''X'' \<noteq> [] \<and> CHR ''='' \<notin> set ''X''" by simp
  from run_command_setenv[OF r1 c l1, of ?os world0] n1
  have a: "run_command ?os ?t1 world0 = Inr (1, printf usage_setenv world0)
      \<and> env (printf usage_setenv world0) = env world0" by blast
  from run_command_setenv[OF r2 c l2, of ?os "world0\<lparr>env := [''X'' \<mapsto> ''0'']\<rparr>"] n2 v
  have "run_command ?os ?t2 (world0\<lparr>env := [''X'' \<mapsto> ''0'']\<rparr>)
      = Inr (1, world0\<lparr>env := [''X'' \<mapsto> ''0''], env := [''X'' \<mapsto> ''0''](''X'' \<mapsto> ''1'')\<rparr>)"
    by (simp add: world0_def)
  then have b: "run_command ?os ?t2 (world0\<lparr>env := [''X'' \<mapsto> ''0'']\<rparr>)
      = Inr (1, world0\<lparr>env := [''X'' \<mapsto> ''1'']\<rparr>)" by simp
  from a b show ?thesis by blast
qed

text \<open>
  C9. Dispatching \<open>unsetenv X\<close> returns 1 and removes \<open>X\<close>, writing nothing; when \<open>X\<close>
  is absent the state is left as it was; and dispatching it again on the resulting
  state gives that state again.
\<close>

theorem run_command_unsetenv_idempotent:
  "run_command os (Some ''unsetenv'' # Some x # replicate 62 None) w
     = Inr (1, w\<lparr>env := unsetenv x (env w)\<rparr>)
   \<and> (env w x = None \<longrightarrow>
        run_command os (Some ''unsetenv'' # Some x # replicate 62 None) w = Inr (1, w))
   \<and> run_command os (Some ''unsetenv'' # Some x # replicate 62 None)
        (w\<lparr>env := unsetenv x (env w)\<rparr>)
     = Inr (1, w\<lparr>env := unsetenv x (env w)\<rparr>)"
proof -
  have c: "check_command ''unsetenv'' = UNSETENV" by code_simp
  have u: "unsetenv x (unsetenv x e) = unsetenv x e" for e
    by (simp add: unsetenv_def)
  have a: "e x = None \<Longrightarrow> unsetenv x e = e" for e
    by (auto simp: unsetenv_def)
  show ?thesis
    by (auto simp: run_command_def rd_def c u a)
qed

theorem run_command_unsetenv_idempotent_witness:
  "env world0 ''X'' = None
   \<and> run_command (os_const \<lparr>fork_ret = 1, exec_ok = True, child_exits = True\<rparr>)
        (Some ''unsetenv'' # Some ''X'' # replicate 62 None) world0 = Inr (1, world0)"
proof -
  have h: "env world0 ''X'' = None" by (simp add: world0_def)
  from run_command_unsetenv_idempotent[of _ "''X''" world0] h show ?thesis by blast
qed

subsection \<open>The startup pass\<close>

text \<open>
  The startup pass does not look at what \<open>run_command\<close> returns: whatever the value,
  -1 (Fault) included, the pass goes on with the rest of the file.
\<close>

lemma initalize_loop_step:
  assumes "get_line kapishrc = Inr (Some tokens, kapishrc')"
    and "run_command os tokens w = Inr (ret_val, w')"
    and "cleanup tokens = Inr ()"
  shows "initalize_loop os kapishrc w = initalize_loop os kapishrc' w'"
  using assms by (subst initalize_loop.simps) simp

lemma initalize_loop_after_fault:
  "initalize_loop (os_const \<lparr>fork_ret = - 1, exec_ok = False, child_exits = False\<rparr>)
      ''nosuchprogram\<newline>setenv A 1\<newline>'' world0
     = Inr ((eprintf error_fork (world0\<lparr>forks := 1\<rparr>))\<lparr>env := [''A'' \<mapsto> ''1'']\<rparr>)"
proof -
  have c: "check_command ''nosuchprogram'' = EXTERNAL" by code_simp
  have r: "run_command (os_const \<lparr>fork_ret = - 1, exec_ok = False, child_exits = False\<rparr>)
        (Some ''nosuchprogram'' # replicate 63 None) world0
      = Inr (- 1, eprintf error_fork (world0\<lparr>forks := 1\<rparr>))"
    by (simp add: run_command_def run_external_def rd_def c os_const_def world0_def)
  have "initalize_loop (os_const \<lparr>fork_ret = - 1, exec_ok = False, child_exits = False\<rparr>)
        ''setenv A 1\<newline>'' (eprintf error_fork (world0\<lparr>forks := 1\<rparr>))
      = Inr ((eprintf error_fork (world0\<lparr>forks := 1\<rparr>))\<lparr>env := [''A'' \<mapsto> ''1'']\<rparr>)"
    by (simp add: get_line_setenv_A dispatch_setenv_A cleanup_ok get_line_eof world0_def
        eprintf_def)
  then show ?thesis
    using initalize_loop_step[OF get_line_nosuch_then_setenv r cleanup_ok(1)] by simp
qed

text \<open>
  C6. The resource file \<open>exit\<close>, \<open>setenv A 1\<close>: \<open>run_command\<close> returns 0 for the \<open>exit\<close>
  line, as its comment says (\<open>0 for exit\<close>), but \<open>initalize\<close> does not read the value; the
  pass does not stop, the next line is dispatched and \<open>A\<close> is set. The interactive
  \<open>loop\<close>, given the same two lines, stops at \<open>exit\<close> and leaves \<open>A\<close> unset.
\<close>

theorem initalize_exit_not_honoured:
  "run_command (os_const \<lparr>fork_ret = 1, exec_ok = True, child_exits = True\<rparr>)
      (Some ''exit'' # replicate 63 None) world0 = Inr (0, world0)
   \<and> initalize (os_const \<lparr>fork_ret = 1, exec_ok = True, child_exits = True\<rparr>)
      (Some ''user'') (Some ''exit\<newline>setenv A 1\<newline>'') world0
     = Inr (0, world0\<lparr>env := [''A'' \<mapsto> ''1'']\<rparr>)
   \<and> loop (os_const \<lparr>fork_ret = 1, exec_ok = True, child_exits = True\<rparr>)
      ''exit\<newline>setenv A 1\<newline>'' world0
     = Some (Inr (0, printf ''? '' world0))"
proof -
  let ?os = "os_const \<lparr>fork_ret = 1, exec_ok = True, child_exits = True\<rparr>"
  have i: "initalize ?os (Some ''user'') (Some ''exit\<newline>setenv A 1\<newline>'') world0
      = Inr (0, world0\<lparr>env := [''A'' \<mapsto> ''1'']\<rparr>)"
    by (simp add: initalize_def get_line_exit_then_setenv dispatch_exit cleanup_ok
        get_line_setenv_A dispatch_setenv_A get_line_eof world0_def)
  have "loop ?os ''exit\<newline>setenv A 1\<newline>'' world0
      = loop_from ?os ''setenv A 1\<newline>'' (printf ''? '' world0) 0"
    unfolding loop_def
    by (subst loop_from.simps) (simp add: get_line_exit_then_setenv dispatch_exit cleanup_ok)
  also have "\<dots> = Some (Inr (0, printf ''? '' world0))"
    by (subst loop_from.simps) simp
  finally show ?thesis using i dispatch_exit by simp
qed

end
